theory Spec2Isabelle
  imports Main
begin

section \<open>Python values, exceptions and \<open>%\<close> string formatting\<close>

text \<open>
  Both scripts are sequential Python. An exception is a value: every operation that can
  raise returns \<open>exn + 'a\<close>, with \<open>Inl\<close> for the exception. \<open>External l\<close> stands for any
  exception raised inside a library the scripts call (the label \<open>l\<close> tells two such
  exceptions apart); the other constructors are raised by the interpreter itself.
\<close>

datatype exn = IndexError | TypeError | ValueError | AttributeError | External string

datatype pyval = PStr string | PInt int

text \<open>Decimal rendering of an integer, as \<open>%d\<close> and \<open>str\<close> produce it.\<close>

definition digit_char :: "nat \<Rightarrow> char" where
  "digit_char d = char_of (48 + d)"

fun dec_nat :: "nat \<Rightarrow> string" where
  "dec_nat n = (if n < 10 then [digit_char n] else dec_nat (n div 10) @ [digit_char (n mod 10)])"

declare dec_nat.simps [simp del]

definition str_of_int :: "int \<Rightarrow> string" where
  "str_of_int i = (if i < 0 then CHR ''-'' # dec_nat (nat (- i)) else dec_nat (nat i))"

fun py_str :: "pyval \<Rightarrow> string" where
  "py_str (PStr s) = s"
| "py_str (PInt i) = str_of_int i"

text \<open>
  \<open>emit s r\<close> puts the text \<open>s\<close> in front of the rest of a formatted string, when the
  rest was formatted without an exception.
\<close>

fun emit :: "string \<Rightarrow> exn + string \<Rightarrow> exn + string" where
  "emit s (Inl e) = Inl e"
| "emit s (Inr r) = Inr (s @ r)"

text \<open>
  \<open>py_format fmt args\<close> is Python's \<open>fmt % args\<close> for the conversions the scripts use
  (\<open>%s\<close>, \<open>%d\<close>, and the escape \<open>%%\<close>), the right operand being the tuple \<open>args\<close> (a single
  string operand is the one-element tuple). The format is read left to right: a missing
  argument or a string given to \<open>%d\<close> raises \<open>TypeError\<close>, a \<open>%\<close> at the end of the format
  or any other conversion raises \<open>ValueError\<close>, and arguments left over at the end raise
  \<open>TypeError\<close>.
\<close>

fun py_format :: "string \<Rightarrow> pyval list \<Rightarrow> exn + string" where
  "py_format [] args = (if args = [] then Inr [] else Inl TypeError)"
| "py_format (c # fs) args =
     (if c \<noteq> CHR ''%'' then emit [c] (py_format fs args)
      else (case fs of
              [] \<Rightarrow> Inl ValueError
            | s # fs' \<Rightarrow>
                if s = CHR ''%'' then emit ''%'' (py_format fs' args)
                else if s = CHR ''s'' then
                  (case args of
                     [] \<Rightarrow> Inl TypeError
                   | a # as \<Rightarrow> emit (py_str a) (py_format fs' as))
                else if s = CHR ''d'' then
                  (case args of
                     [] \<Rightarrow> Inl TypeError
                   | PStr x # as \<Rightarrow> Inl TypeError
                   | PInt i # as \<Rightarrow> emit (str_of_int i) (py_format fs' as))
                else Inl ValueError))"

text \<open>Sequencing of operations that may raise: the first exception ends the sequence.\<close>

fun bind_exn :: "exn + 'a \<Rightarrow> ('a \<Rightarrow> exn + 'b) \<Rightarrow> exn + 'b" where
  "bind_exn (Inl e) f = Inl e"
| "bind_exn (Inr x) f = f x"

section \<open>Component A: the VM provisioning script \<open>mkvm.py\<close>\<close>

subsection \<open>The command list\<close>

text \<open>\<open>sys.argv[i]\<close>: an index past the end raises \<open>IndexError\<close>.\<close>

definition argv_index :: "string list \<Rightarrow> nat \<Rightarrow> exn + string" where
  "argv_index argv i = (if i < length argv then Inr (argv ! i) else Inl IndexError)"

text \<open>
  The three here-documents of the list. A backslash of the Python source (\<open>\$\<close>, which
  Python keeps as two characters, and \<open>\\\<close>, which is one backslash) is \<open>CHR 0x5C\<close>.
\<close>

definition rc_local_cmd :: string where
  "rc_local_cmd =
     ''cat >> /etc/rc.local <<EOF\<newline>'' @
     ''(\<newline>'' @
     ''  export PATH=/usr/pkg/bin:/usr/pkg/sbin:${PATH}\<newline>'' @
     ''  export GOROOT_BOOTSTRAP=/usr/pkg/go14\<newline>'' @
     ''  set -x\<newline>'' @
     ''  echo 'starting buildlet script'\<newline>'' @
     ''  netstat -rn\<newline>'' @
     ''  cat /etc/resolv.conf\<newline>'' @
     ''  dig metadata.google.internal\<newline>'' @
     ''  (\<newline>'' @
     ''    set -e\<newline>'' @
     ''    curl -o /buildlet '' @ [CHR 0x5C] @ ''$(curl -H 'Metadata-Flavor: Google' http://metadata.google.internal/computeMetadata/v1/instance/attributes/buildlet-binary-url)\<newline>'' @
     ''    chmod +x /buildlet\<newline>'' @
     ''    exec /buildlet\<newline>'' @
     ''  )\<newline>'' @
     ''  echo 'giving up'\<newline>'' @
     ''  sleep 10\<newline>'' @
     ''  halt -p\<newline>'' @
     '')\<newline>'' @
     ''EOF''"

definition ifconfig_cmd :: string where
  "ifconfig_cmd =
     ''cat > /etc/ifconfig.vioif0 << EOF\<newline>'' @
     ''!dhcpcd\<newline>'' @
     ''mtu 1460\<newline>'' @
     ''EOF''"

definition fstab_cmd :: string where
  "fstab_cmd =
     ''ed /etc/fstab << EOF\<newline>'' @
     ''H\<newline>'' @
     ''/'' @ [CHR 0x5C] @ ''/tmp/d\<newline>'' @
     ''wq\<newline>'' @
     ''EOF''"

text \<open>
  The list \<open>commands\<close>, built from \<open>arch\<close> and \<open>release\<close> in the order the source writes
  it; the five \<open>pkg_add\<close> entries are formatted with \<open>% (arch, release)\<close>.
\<close>

definition commands :: "string \<Rightarrow> string \<Rightarrow> exn + string list" where
  "commands arch release =
     bind_exn (py_format ''env PKG_PATH=http://ftp.netbsd.org/pub/pkgsrc/packages/NetBSD/%s/%s/All/ pkg_add bash curl'' [PStr arch, PStr release]) (\<lambda>p1.
     bind_exn (py_format ''env PKG_PATH=http://ftp.netbsd.org/pub/pkgsrc/packages/NetBSD/%s/%s/All/ pkg_add git-base'' [PStr arch, PStr release]) (\<lambda>p2.
     bind_exn (py_format ''env PKG_PATH=http://ftp.netbsd.org/pub/pkgsrc/packages/NetBSD/%s/%s/All/ pkg_add mozilla-rootcerts mozilla-rootcerts-openssl go14'' [PStr arch, PStr release]) (\<lambda>p3.
     bind_exn (py_format ''env PKG_PATH=http://ftp.netbsd.org/pub/pkgsrc/packages/NetBSD/%s/%s/All/ pkg_add emacs25-nox11 vim screen'' [PStr arch, PStr release]) (\<lambda>p4.
     bind_exn (py_format ''env PKG_PATH=http://ftp.netbsd.org/pub/pkgsrc/packages/NetBSD/%s/%s/All/ pkg_add clang cmake'' [PStr arch, PStr release]) (\<lambda>p5.
     Inr [rc_local_cmd,
          ifconfig_cmd,
          ''dhcpcd'',
          p1, p2, p3, p4, p5,
          fstab_cmd,
          ''echo sshd=yes >> /etc/rc.conf'',
          ''echo PermitRootLogin without-password >> /etc/ssh/sshd_config'',
          ''/etc/rc.d/sshd restart'',
          ''sync; shutdown -hp now''])))))"

subsection \<open>The VM library and the script\<close>

text \<open>
  The library \<open>anita\<close> is external. A run of the script is the sequence of calls it
  makes into the library, in order, each with its outcome: \<open>None\<close> when the call
  returned, \<open>Some e\<close> when it raised \<open>e\<close>. \<open>raises env tr c\<close> tells whether the call \<open>c\<close>,
  made after the events \<open>tr\<close>, raises; \<open>boot_child env tr\<close> is the console handle that
  \<open>boot\<close> returns. A call that raises is still part of the trace: it was made.
\<close>

type_synonym child = nat

record vm_config =
  dist :: string
  workdir :: string
  disk_size :: string
  memory_size :: string
  persist :: bool

datatype call =
    URL_new string
  | Anita_new vm_config
  | Boot
  | Login child
  | Shell_cmd child string nat
  | Halt

type_synonym event = "call \<times> exn option"

record anita_env =
  raises :: "event list \<Rightarrow> call \<Rightarrow> exn option"
  boot_child :: "event list \<Rightarrow> child"

text \<open>
  A script threads a state (the trace) and may raise. Statement sequencing: an exception
  ends the script, keeping the state reached.
\<close>

type_synonym ('s, 'a) script = "'s \<Rightarrow> (exn + 'a) \<times> 's"

definition seq :: "('s, 'a) script \<Rightarrow> ('a \<Rightarrow> ('s, 'b) script) \<Rightarrow> ('s, 'b) script" where
  "seq m f tr = (case m tr of (Inl e, tr') \<Rightarrow> (Inl e, tr') | (Inr x, tr') \<Rightarrow> f x tr')"

text \<open>An interpreter-level computation (indexing, formatting) makes no library call.\<close>

definition pure :: "exn + 'a \<Rightarrow> ('s, 'a) script" where
  "pure r tr = (r, tr)"

definition invoke :: "anita_env \<Rightarrow> call \<Rightarrow> (event list, unit) script" where
  "invoke env c tr =
     (case raises env tr c of
        Some e \<Rightarrow> (Inl e, tr @ [(c, Some e)])
      | None \<Rightarrow> (Inr (), tr @ [(c, None)]))"

text \<open>\<open>child = a.boot()\<close>: the call, and the handle it returns.\<close>

definition boot :: "anita_env \<Rightarrow> (event list, child) script" where
  "boot env tr =
     (case raises env tr Boot of
        Some e \<Rightarrow> (Inl e, tr @ [(Boot, Some e)])
      | None \<Rightarrow> (Inr (boot_child env tr), tr @ [(Boot, None)]))"

text \<open>\<open>for cmd in commands: anita.shell_cmd(child, cmd, 3600)\<close>\<close>

fun shell_loop :: "anita_env \<Rightarrow> child \<Rightarrow> string list \<Rightarrow> (event list, unit) script" where
  "shell_loop env ch [] tr = (Inr (), tr)"
| "shell_loop env ch (cmd # cmds) tr =
     (case invoke env (Shell_cmd ch cmd 3600) tr of
        (Inl e, tr') \<Rightarrow> (Inl e, tr')
      | (Inr u, tr') \<Rightarrow> shell_loop env ch cmds tr')"

text \<open>\<open>try: a.halt()  except: pass\<close>: the bare \<open>except\<close> catches every exception.\<close>

definition try_halt :: "anita_env \<Rightarrow> (event list, unit) script" where
  "try_halt env tr =
     (case invoke env Halt tr of
        (Inl e, tr') \<Rightarrow> (Inr (), tr')
      | (Inr u, tr') \<Rightarrow> (Inr (), tr'))"

text \<open>
  The whole module, top to bottom: the two argument reads, the command list, the URL and
  the VM object, boot, login, the command loop, and the guarded halt.
\<close>

definition mkvm :: "anita_env \<Rightarrow> string list \<Rightarrow> (event list, unit) script" where
  "mkvm env argv =
     seq (pure (argv_index argv 1)) (\<lambda>arch.
     seq (pure (argv_index argv 2)) (\<lambda>release.
     seq (pure (commands arch release)) (\<lambda>cmds.
     seq (pure (py_format ''https://cdn.netbsd.org/pub/NetBSD/NetBSD-9.0/%s/'' [PStr arch])) (\<lambda>url.
     seq (invoke env (URL_new url)) (\<lambda>u.
     seq (pure (py_format ''work-NetBSD-%s'' [PStr arch])) (\<lambda>wd.
     seq (invoke env (Anita_new \<lparr>dist = url, workdir = wd, disk_size = ''16G'',
                                  memory_size = ''2G'', persist = True\<rparr>)) (\<lambda>a.
     seq (boot env) (\<lambda>ch.
     seq (invoke env (Login ch)) (\<lambda>l.
     seq (shell_loop env ch cmds) (\<lambda>d.
     try_halt env))))))))))"

text \<open>The run of the script: its outcome and the events of its calls, from an empty trace.\<close>

definition run_mkvm :: "anita_env \<Rightarrow> string list \<Rightarrow> (exn + unit) \<times> event list" where
  "run_mkvm env argv = mkvm env argv []"

subsection \<open>Observations on a trace\<close>

definition calls_of :: "event list \<Rightarrow> call list" where
  "calls_of tr = map fst tr"

fun shell_cmds_of :: "call list \<Rightarrow> string list" where
  "shell_cmds_of [] = []"
| "shell_cmds_of (Shell_cmd ch s t # cs) = s # shell_cmds_of cs"
| "shell_cmds_of (c # cs) = shell_cmds_of cs"

fun is_shell_cmd :: "call \<Rightarrow> bool" where
  "is_shell_cmd (Shell_cmd ch s t) = True"
| "is_shell_cmd c = False"

fun is_anita_new :: "call \<Rightarrow> bool" where
  "is_anita_new (Anita_new cfg) = True"
| "is_anita_new c = False"

definition boot_count :: "event list \<Rightarrow> nat" where
  "boot_count tr = count_list (calls_of tr) Boot"

definition halt_count :: "event list \<Rightarrow> nat" where
  "halt_count tr = count_list (calls_of tr) Halt"

text \<open>
  A straight-line run of a list of calls, stopping at the first one that raises. The
  command loop is such a run, and so is the script up to its halt.
\<close>

fun run_calls :: "anita_env \<Rightarrow> call list \<Rightarrow> (event list, unit) script" where
  "run_calls env [] tr = (Inr (), tr)"
| "run_calls env (c # cs) tr =
     (case invoke env c tr of
        (Inl e, tr') \<Rightarrow> (Inl e, tr')
      | (Inr u, tr') \<Rightarrow> run_calls env cs tr')"

text \<open>Two environments for concrete runs: every call returns; the \<open>dhcpcd\<close> command raises.\<close>

definition quiet_env :: anita_env where
  "quiet_env = \<lparr>raises = (\<lambda>tr c. None), boot_child = (\<lambda>tr. 0)\<rparr>"

definition dhcpcd_fails_env :: anita_env where
  "dhcpcd_fails_env =
     \<lparr>raises = (\<lambda>tr c. if c = Shell_cmd 0 ''dhcpcd'' 3600 then Some (External ''shell_cmd'') else None),
      boot_child = (\<lambda>tr. 0)\<rparr>"

definition halt_fails_env :: anita_env where
  "halt_fails_env =
     \<lparr>raises = (\<lambda>tr c. if c = Halt then Some (External ''halt timeout'') else None),
      boot_child = (\<lambda>tr. 0)\<rparr>"

definition example_argv :: "string list" where
  "example_argv = [''mkvm.py'', ''amd64'', ''9.0'']"

subsection \<open>The script as a straight line of calls\<close>

text \<open>The text of a \<open>pkg_add\<close> entry of the command list, once formatted.\<close>

definition pkg_add_cmd :: "string \<Rightarrow> string \<Rightarrow> string \<Rightarrow> string" where
  "pkg_add_cmd arch release pkgs =
     ''env PKG_PATH=http://ftp.netbsd.org/pub/pkgsrc/packages/NetBSD/'' @ arch @ ''/'' @ release @
     ''/All/ pkg_add '' @ pkgs"

text \<open>
  The calls the script makes before its halt when none of them raises: the URL, the VM
  object, boot, login with the handle boot returned, and one \<open>shell_cmd\<close> for each entry
  of the command list.
\<close>

definition script_calls :: "anita_env \<Rightarrow> string \<Rightarrow> string \<Rightarrow> call list" where
  "script_calls env arch release =
     (let url = ''https://cdn.netbsd.org/pub/NetBSD/NetBSD-9.0/'' @ arch @ ''/'';
          cfg = \<lparr>dist = url, workdir = ''work-NetBSD-'' @ arch, disk_size = ''16G'',
                 memory_size = ''2G'', persist = True\<rparr>;
          ch = boot_child env [(URL_new url, None), (Anita_new cfg, None)]
      in [URL_new url, Anita_new cfg, Boot, Login ch] @
         map (\<lambda>c. Shell_cmd ch c 3600) (projr (commands arch release)))"

text \<open>A trace is faithful when the outcome logged for each call is the one the
  environment gives that call after the events before it.\<close>

definition faithful :: "anita_env \<Rightarrow> event list \<Rightarrow> bool" where
  "faithful env tr \<longleftrightarrow> (\<forall>i<length tr. snd (tr ! i) = raises env (take i tr) (fst (tr ! i)))"

section \<open>Component B: the recipe \<open>tricium_simple.py\<close>\<close>

subsection \<open>The recipe framework, as the recipe sees it\<close>

text \<open>
  The recipe engine and its modules (\<open>gerrit\<close>, \<open>git\<close>, \<open>tryserver\<close>, \<open>path\<close>,
  \<open>tricium\<close>) are external. \<open>RunSteps\<close> reads three properties of the \<open>api\<close> object and
  makes four module calls. \<open>GerritChange\<close> is the value of
  \<open>api.tryserver.gerrit_change\<close>, which is \<open>None\<close> when the build has no Gerrit change;
  reading an attribute of \<open>None\<close> raises \<open>AttributeError\<close>.
\<close>

record GerritChange =
  host :: string
  project :: string
  change :: int
  patchset :: int

text \<open>A path is a named base directory and the pieces joined to it.\<close>

datatype path = Path string "string list"

fun join :: "path \<Rightarrow> string list \<Rightarrow> path" where
  "join (Path base ps) qs = Path base (ps @ qs)"

datatype analyzer = HTTPS_CHECK | SPELLCHECKER | INCLUSIVE_LANGUAGE_CHECK | COPYRIGHT

text \<open>
  The four module calls, with their arguments. The values the calls return are opaque to
  the recipe, which only passes them on: they have the type \<open>'v\<close>.
  \<^item> \<open>api.gerrit.get_change_description(host, change, patchset)\<close>
  \<^item> \<open>api.git.checkout(url=, ref=, dir_path=, submodules=)\<close>
  \<^item> \<open>api.tryserver.get_files_affected_by_patch(patch_root=, report_files_via_property=)\<close>
  \<^item> \<open>api.tricium.run_legacy(analyzers, input_base, affected_files, commit_message)\<close>
\<close>

datatype 'v step =
    Get_change_description string int int
  | Git_checkout string string path bool
  | Get_files_affected_by_patch string string
  | Run_legacy "analyzer list" path 'v 'v

text \<open>
  A run is the sequence of the calls made, each with what it returned (\<open>Inr\<close>) or raised
  (\<open>Inl\<close>). \<open>responds api tr c\<close> is the outcome of the call \<open>c\<close> made after the events \<open>tr\<close>.
\<close>

type_synonym 'v step_event = "'v step \<times> (exn + 'v)"

record 'v recipe_api =
  gerrit_change :: "GerritChange option"
  gerrit_change_repo_project :: string
  start_dir :: path
  responds :: "'v step_event list \<Rightarrow> 'v step \<Rightarrow> exn + 'v"

definition step_call :: "'v recipe_api \<Rightarrow> 'v step \<Rightarrow> ('v step_event list, 'v) script" where
  "step_call api c tr = (responds api tr c, tr @ [(c, responds api tr c)])"

definition gerrit_change_of :: "'v recipe_api \<Rightarrow> exn + GerritChange" where
  "gerrit_change_of api =
     (case gerrit_change api of None \<Rightarrow> Inl AttributeError | Some g \<Rightarrow> Inr g)"

subsection \<open>\<open>RunSteps\<close>\<close>

text \<open>\<open>"refs/changes/%d/%d/%d" % (change % 100, change, patchset)\<close>\<close>

definition checkout_ref :: "int \<Rightarrow> int \<Rightarrow> exn + string" where
  "checkout_ref c p = py_format ''refs/changes/%d/%d/%d'' [PInt (c mod 100), PInt c, PInt p]"

text \<open>
  The body of \<open>RunSteps\<close>, statement by statement. The local \<open>project\<close> of the source is
  \<open>repo_project\<close> here (\<open>project\<close> is the field of the change). The first read of
  \<open>api.tryserver.gerrit_change\<close> decides whether the attribute reads raise; the later
  reads see the same value.
\<close>

definition RunSteps :: "'v recipe_api \<Rightarrow> ('v step_event list, unit) script" where
  "RunSteps api =
     (let repo_project = gerrit_change_repo_project api in
      seq (pure (gerrit_change_of api)) (\<lambda>g.
      seq (pure (py_format ''https://%s'' [PStr (host g)])) (\<lambda>host_url.
      seq (step_call api (Get_change_description host_url (change g) (patchset g))) (\<lambda>commit_message.
      let repo_path = join (start_dir api) [repo_project] in
      seq (pure (py_format ''https://%s/%s'' [PStr (host g), PStr (project g)])) (\<lambda>url.
      seq (pure (checkout_ref (change g) (patchset g))) (\<lambda>ref.
      seq (step_call api (Git_checkout url ref repo_path False)) (\<lambda>u.
      seq (step_call api (Get_files_affected_by_patch repo_project ''affected_files'')) (\<lambda>affected_files.
      let analyzers = [HTTPS_CHECK, SPELLCHECKER, INCLUSIVE_LANGUAGE_CHECK, COPYRIGHT] in
      seq (step_call api (Run_legacy analyzers repo_path affected_files commit_message)) (\<lambda>d.
      pure (Inr ()))))))))))"

subsection \<open>Observations and concrete frameworks\<close>

text \<open>The number a string of decimal digits denotes.\<close>

definition dec_value :: "string \<Rightarrow> nat" where
  "dec_value s = foldl (\<lambda>a ch. 10 * a + (of_char ch - 48)) 0 s"


definition low_change_api :: "string recipe_api" where
  "low_change_api =
     \<lparr>gerrit_change = Some \<lparr>host = ''go-review.googlesource.com'', project = ''go'',
                              change = 86705, patchset = 1\<rparr>,
      gerrit_change_repo_project = ''go'',
      start_dir = Path ''start_dir'' [],
      responds = (\<lambda>tr c. Inr '''')\<rparr>"

definition checkout_fails_api :: "string recipe_api" where
  "checkout_fails_api =
     \<lparr>gerrit_change = Some \<lparr>host = ''go-review.googlesource.com'', project = ''go'',
                              change = 86753, patchset = 1\<rparr>,
      gerrit_change_repo_project = ''go'',
      start_dir = Path ''start_dir'' [],
      responds = (\<lambda>tr c. case c of
                     Git_checkout url ref dir_path submodules \<Rightarrow> Inl (External ''git checkout'')
                   | _ \<Rightarrow> Inr '''')\<rparr>"

section \<open>Properties of Component A\<close>

subsection \<open>Formatting of the command list and of the VM arguments\<close>

lemma commands_eq:
  "commands arch release =
     Inr [rc_local_cmd, ifconfig_cmd, ''dhcpcd'',
          pkg_add_cmd arch release ''bash curl'',
          pkg_add_cmd arch release ''git-base'',
          pkg_add_cmd arch release ''mozilla-rootcerts mozilla-rootcerts-openssl go14'',
          pkg_add_cmd arch release ''emacs25-nox11 vim screen'',
          pkg_add_cmd arch release ''clang cmake'',
          fstab_cmd,
          ''echo sshd=yes >> /etc/rc.conf'',
          ''echo PermitRootLogin without-password >> /etc/ssh/sshd_config'',
          ''/etc/rc.d/sshd restart'',
          ''sync; shutdown -hp now'']"
  by (simp add: commands_def pkg_add_cmd_def)

subsection \<open>The shape of a run\<close>

lemma shell_loop_run_calls:
  "shell_loop env ch cmds tr = run_calls env (map (\<lambda>c. Shell_cmd ch c 3600) cmds) tr"
  by (induction cmds arbitrary: tr) (auto split: prod.splits sum.splits)

lemma run_calls_ok:
  "run_calls env cs tr0 = (Inr u, tr) \<Longrightarrow> tr = tr0 @ map (\<lambda>c. (c, None)) cs"
proof (induction cs arbitrary: tr0)
  case Nil then show ?case by simp
next
  case (Cons c cs)
  from Cons.prems have "run_calls env cs (tr0 @ [(c, None)]) = (Inr u, tr)"
    by (auto simp: invoke_def split: option.splits)
  from Cons.IH[OF this] show ?case by simp
qed

lemma run_calls_fail:
  "run_calls env cs tr0 = (Inl e, tr) \<Longrightarrow>
   \<exists>k<length cs. tr = tr0 @ map (\<lambda>c. (c, None)) (take k cs) @ [(cs ! k, Some e)]"
proof (induction cs arbitrary: tr0)
  case Nil then show ?case by simp
next
  case (Cons c cs)
  show ?case
  proof (cases "raises env tr0 c")
    case None
    with Cons.prems have "run_calls env cs (tr0 @ [(c, None)]) = (Inl e, tr)"
      by (simp add: invoke_def)
    from Cons.IH[OF this] obtain k where "k < length cs"
      "tr = (tr0 @ [(c, None)]) @ map (\<lambda>c. (c, None)) (take k cs) @ [(cs ! k, Some e)]"
      by blast
    then have "Suc k < length (c # cs) \<and>
      tr = tr0 @ map (\<lambda>c. (c, None)) (take (Suc k) (c # cs)) @ [((c # cs) ! Suc k, Some e)]"
      by simp
    then show ?thesis by blast
  next
    case (Some e')
    with Cons.prems have "e' = e" "tr = tr0 @ [(c, Some e)]"
      by (auto simp: invoke_def)
    then have "0 < length (c # cs) \<and>
      tr = tr0 @ map (\<lambda>c. (c, None)) (take 0 (c # cs)) @ [((c # cs) ! 0, Some e)]"
      by simp
    then show ?thesis by blast
  qed
qed

lemma try_halt_eq: "try_halt env tr = (Inr (), tr @ [(Halt, raises env tr Halt)])"
  by (simp add: try_halt_def invoke_def split: option.splits)

lemma mkvm_short: "length argv < 3 \<Longrightarrow> run_mkvm env argv = (Inl IndexError, [])"
  by (simp add: run_mkvm_def mkvm_def seq_def pure_def argv_index_def)

lemma mkvm_long:
  assumes "3 \<le> length argv"
  shows "run_mkvm env argv =
     (case run_calls env (script_calls env (argv ! 1) (argv ! 2)) [] of
        (Inl e, tr) \<Rightarrow> (Inl e, tr)
      | (Inr u, tr) \<Rightarrow> try_halt env tr)"
  using assms
  by (simp add: run_mkvm_def mkvm_def seq_def pure_def argv_index_def script_calls_def
        commands_eq invoke_def boot_def shell_loop_run_calls Let_def
        split: option.splits prod.splits sum.splits)

lemma run_mkvm_shape:
  assumes "run_mkvm env argv = (r, tr)"
  shows "(length argv < 3 \<and> r = Inl IndexError \<and> tr = []) \<or>
         (3 \<le> length argv \<and> r = Inr () \<and>
            (\<exists>h. tr = map (\<lambda>c. (c, None)) (script_calls env (argv ! 1) (argv ! 2)) @ [(Halt, h)])) \<or>
         (3 \<le> length argv \<and>
            (\<exists>k e. k < length (script_calls env (argv ! 1) (argv ! 2)) \<and> r = Inl e \<and>
               tr = map (\<lambda>c. (c, None)) (take k (script_calls env (argv ! 1) (argv ! 2))) @
                    [(script_calls env (argv ! 1) (argv ! 2) ! k, Some e)]))"
proof (cases "length argv < 3")
  case True
  with assms mkvm_short[of argv env] show ?thesis by simp
next
  case False
  then have len: "3 \<le> length argv" by simp
  obtain r1 tr1 where rc: "run_calls env (script_calls env (argv ! 1) (argv ! 2)) [] = (r1, tr1)"
    by (cases "run_calls env (script_calls env (argv ! 1) (argv ! 2)) []")
  show ?thesis
  proof (cases r1)
    case (Inl e)
    with assms rc mkvm_long[OF len, of env] have "r = Inl e" "tr = tr1" by simp_all
    moreover from run_calls_fail[of env _ "[]" e tr1] rc Inl
    obtain k where "k < length (script_calls env (argv ! 1) (argv ! 2))"
      "tr1 = map (\<lambda>c. (c, None)) (take k (script_calls env (argv ! 1) (argv ! 2))) @
                    [(script_calls env (argv ! 1) (argv ! 2) ! k, Some e)]" by auto
    ultimately show ?thesis using len by blast
  next
    case (Inr u)
    with assms rc mkvm_long[OF len, of env]
    have "r = Inr ()" "tr = tr1 @ [(Halt, raises env tr1 Halt)]"
      by (simp_all add: try_halt_eq)
    moreover from run_calls_ok[of env _ "[]" u tr1] rc Inr
    have "tr1 = map (\<lambda>c. (c, None)) (script_calls env (argv ! 1) (argv ! 2))" by simp
    ultimately show ?thesis using len by blast
  qed
qed

lemma halt_notin_script_calls: "Halt \<notin> set (script_calls env a r)"
  by (auto simp: script_calls_def commands_eq Let_def)

subsection \<open>The logged outcomes are the environment's\<close>

lemma faithful_snoc: "faithful env tr \<Longrightarrow> faithful env (tr @ [(c, raises env tr c)])"
  by (auto simp: faithful_def nth_append less_Suc_eq)

lemma run_calls_faithful:
  "run_calls env cs tr0 = (r, tr) \<Longrightarrow> faithful env tr0 \<Longrightarrow> faithful env tr"
proof (induction cs arbitrary: tr0)
  case Nil then show ?case by simp
next
  case (Cons c cs)
  show ?case
  proof (cases "raises env tr0 c")
    case None
    with Cons.prems(1) have "run_calls env cs (tr0 @ [(c, raises env tr0 c)]) = (r, tr)"
      by (simp add: invoke_def)
    from Cons.IH[OF this faithful_snoc[OF Cons.prems(2)]] show ?thesis .
  next
    case (Some e)
    with Cons.prems(1) have "tr = tr0 @ [(c, raises env tr0 c)]" by (simp add: invoke_def)
    with faithful_snoc[OF Cons.prems(2)] show ?thesis by simp
  qed
qed

lemma run_mkvm_faithful:
  assumes "run_mkvm env argv = (r, tr)"
  shows "faithful env tr"
proof (cases "length argv < 3")
  case True
  with assms mkvm_short[of argv env] show ?thesis by (simp add: faithful_def)
next
  case False
  then have len: "3 \<le> length argv" by simp
  obtain r1 tr1 where rc: "run_calls env (script_calls env (argv ! 1) (argv ! 2)) [] = (r1, tr1)"
    by (cases "run_calls env (script_calls env (argv ! 1) (argv ! 2)) []")
  have f1: "faithful env tr1" using run_calls_faithful[OF rc] by (simp add: faithful_def)
  show ?thesis
  proof (cases r1)
    case (Inl e)
    with assms rc mkvm_long[OF len, of env] have "tr = tr1" by simp
    with f1 show ?thesis by simp
  next
    case (Inr u)
    with assms rc mkvm_long[OF len, of env] have "tr = tr1 @ [(Halt, raises env tr1 Halt)]"
      by (simp add: try_halt_eq)
    with faithful_snoc[OF f1] show ?thesis by simp
  qed
qed

lemmas run_eval =
  mkvm_long script_calls_def commands_eq invoke_def try_halt_def Let_def example_argv_def

subsection \<open>Error handling\<close>

text \<open>
  C1. Take any run of the script and any call of it that raised an exception \<open>e\<close>. That
  call is the last one of the run: nothing is called after it. If it is the final
  \<open>a.halt()\<close>, the exception is suppressed and the script completes normally. If it is
  any other call, in particular a shell command of the loop, the script ends with the
  exception \<open>e\<close> itself, so no later command runs and the halt is never reached.
\<close>

theorem halt_failure_suppressed_other_failure_propagates:
  assumes run: "run_mkvm env argv = (r, tr)"
    and i: "i < length tr"
    and e: "raises env (take i tr) (fst (tr ! i)) = Some e"
  shows "snd (tr ! i) = Some e \<and> Suc i = length tr \<and>
         (fst (tr ! i) = Halt \<longrightarrow> r = Inr ()) \<and>
         (fst (tr ! i) \<noteq> Halt \<longrightarrow> r = Inl e)"
proof -
  from run_mkvm_faithful[OF run] i e have out: "snd (tr ! i) = Some e"
    by (simp add: faithful_def)
  let ?cs = "script_calls env (argv ! 1) (argv ! 2)"
  from run_mkvm_shape[OF run] i
  consider (completed) h where "r = Inr ()" "tr = map (\<lambda>c. (c, None)) ?cs @ [(Halt, h)]"
    | (failed) k e' where "k < length ?cs" "r = Inl e'"
        "tr = map (\<lambda>c. (c, None)) (take k ?cs) @ [(?cs ! k, Some e')]"
    by auto
  then show ?thesis
  proof cases
    case completed
    have "\<not> i < length ?cs"
    proof
      assume "i < length ?cs"
      with completed(2) have "snd (tr ! i) = None" by (simp add: nth_append)
      with out show False by simp
    qed
    with i completed(2) have "i = length ?cs" by simp
    with completed out show ?thesis by (simp add: nth_append)
  next
    case failed
    have "\<not> i < k"
    proof
      assume "i < k"
      with failed(1,3) have "snd (tr ! i) = None" by (simp add: nth_append)
      with out show False by simp
    qed
    with i failed(1,3) have ik: "i = k" by simp
    with failed(1,3) have ev: "tr ! i = (?cs ! k, Some e')" by (simp add: nth_append)
    from failed(1) have "?cs ! k \<in> set ?cs" by simp
    with halt_notin_script_calls[of env] have "?cs ! k \<noteq> Halt" by metis
    with ev out failed ik show ?thesis by simp
  qed
qed

theorem halt_failure_suppressed_other_failure_propagates_witness:
  "fst (snd (run_mkvm halt_fails_env example_argv) ! 17) = Halt \<and>
   snd (snd (run_mkvm halt_fails_env example_argv) ! 17) = Some (External ''halt timeout'') \<and>
   Suc 17 = length (snd (run_mkvm halt_fails_env example_argv)) \<and>
   fst (run_mkvm halt_fails_env example_argv) = Inr () \<and>
   fst (snd (run_mkvm dhcpcd_fails_env example_argv) ! 6) = Shell_cmd 0 ''dhcpcd'' 3600 \<and>
   snd (snd (run_mkvm dhcpcd_fails_env example_argv) ! 6) = Some (External ''shell_cmd'') \<and>
   Suc 6 = length (snd (run_mkvm dhcpcd_fails_env example_argv)) \<and>
   fst (run_mkvm dhcpcd_fails_env example_argv) = Inl (External ''shell_cmd'')"
proof -
  let ?h = "run_mkvm halt_fails_env example_argv"
  let ?d = "run_mkvm dhcpcd_fails_env example_argv"
  have h0: "?h = (fst ?h, snd ?h)" and d0: "?d = (fst ?d, snd ?d)" by simp_all
  have h1: "17 < length (snd ?h)" and h2: "fst (snd ?h ! 17) = Halt"
    by (simp_all add: run_eval halt_fails_env_def)
  have h3: "raises halt_fails_env (take 17 (snd ?h)) (fst (snd ?h ! 17)) = Some (External ''halt timeout'')"
    by (simp add: h2) (simp add: halt_fails_env_def)
  have d1: "6 < length (snd ?d)" and d2: "fst (snd ?d ! 6) = Shell_cmd 0 ''dhcpcd'' 3600"
    by (simp_all add: run_eval dhcpcd_fails_env_def rc_local_cmd_def ifconfig_cmd_def)
  have d3: "raises dhcpcd_fails_env (take 6 (snd ?d)) (fst (snd ?d ! 6)) = Some (External ''shell_cmd'')"
    by (simp add: d2) (simp add: dhcpcd_fails_env_def)
  from halt_failure_suppressed_other_failure_propagates[OF h0 h1 h3]
       halt_failure_suppressed_other_failure_propagates[OF d0 d1 d3] h2 d2
  show ?thesis by simp
qed

subsection \<open>The calls of a run are a prefix of the script's calls\<close>

lemma calls_of_ok [simp]: "calls_of (map (\<lambda>c. (c, x)) cs) = cs"
  by (simp add: calls_of_def comp_def)

lemma calls_of_append [simp]: "calls_of (xs @ ys) = calls_of xs @ calls_of ys"
  by (simp add: calls_of_def)

lemma calls_of_single [simp]: "calls_of [(c, x)] = [c]"
  by (simp add: calls_of_def)

lemma script_calls_length: "length (script_calls env a r) = 17"
  by (simp add: script_calls_def commands_eq Let_def)

lemma run_mkvm_calls:
  assumes "run_mkvm env argv = (r, tr)"
  shows "\<exists>n\<le>18. calls_of tr = take n (script_calls env (argv ! 1) (argv ! 2) @ [Halt]) \<and>
           (r = Inr () \<longleftrightarrow> n = 18)"
proof -
  let ?cs = "script_calls env (argv ! 1) (argv ! 2)"
  from run_mkvm_shape[OF assms]
  consider (short) "r = Inl IndexError" "tr = []"
    | (completed) h where "r = Inr ()" "tr = map (\<lambda>c. (c, None)) ?cs @ [(Halt, h)]"
    | (failed) k e' where "k < length ?cs" "r = Inl e'"
        "tr = map (\<lambda>c. (c, None)) (take k ?cs) @ [(?cs ! k, Some e')]"
    by auto
  then show ?thesis
  proof cases
    case short
    then have "calls_of tr = take 0 (?cs @ [Halt]) \<and> (r = Inr () \<longleftrightarrow> (0::nat) = 18)"
      by (simp add: calls_of_def)
    then show ?thesis by (intro exI[of _ 0]) simp
  next
    case completed
    then have "calls_of tr = take 18 (?cs @ [Halt]) \<and> (r = Inr () \<longleftrightarrow> (18::nat) = 18)"
      by (simp add: script_calls_length)
    then show ?thesis by (intro exI[of _ 18]) simp
  next
    case failed
    from failed(1) have "take k ?cs @ [?cs ! k] = take (Suc k) ?cs"
      by (simp add: take_Suc_conv_app_nth)
    with failed have "calls_of tr = take (Suc k) (?cs @ [Halt]) \<and> (r = Inr () \<longleftrightarrow> Suc k = 18)"
      by (simp add: script_calls_length)
    moreover from failed(1) have "Suc k \<le> 18" by (simp add: script_calls_length)
    ultimately show ?thesis by (intro exI[of _ "Suc k"]) simp
  qed
qed

lemma run_completes:
  assumes len: "3 \<le> length argv"
    and quiet: "\<forall>tr c. c \<noteq> Halt \<longrightarrow> raises env tr c = None"
  shows "fst (run_mkvm env argv) = Inr ()"
proof -
  obtain r tr where run: "run_mkvm env argv = (r, tr)" by (cases "run_mkvm env argv")
  let ?cs = "script_calls env (argv ! 1) (argv ! 2)"
  from run_mkvm_shape[OF run] len
  consider (completed) "r = Inr ()"
    | (failed) k e' where "k < length ?cs" "r = Inl e'"
        "tr = map (\<lambda>c. (c, None)) (take k ?cs) @ [(?cs ! k, Some e')]"
    by auto
  then show ?thesis
  proof cases
    case completed
    with run show ?thesis by simp
  next
    case failed
    from failed(1,3) have ev: "tr ! k = (?cs ! k, Some e')" and k: "k < length tr"
      by (simp_all add: nth_append)
    from failed(1) have "?cs ! k \<in> set ?cs" by simp
    with halt_notin_script_calls[of env] have "?cs ! k \<noteq> Halt" by metis
    with quiet have "raises env (take k tr) (?cs ! k) = None" by simp
    moreover have "snd (tr ! k) = raises env (take k tr) (fst (tr ! k))"
      using run_mkvm_faithful[OF run] k unfolding faithful_def by blast
    with ev have "raises env (take k tr) (?cs ! k) = Some e'" by simp
    ultimately show ?thesis by simp
  qed
qed

subsection \<open>Order of the shell commands\<close>

lemma shell_cmds_of_append: "shell_cmds_of (xs @ ys) = shell_cmds_of xs @ shell_cmds_of ys"
  by (induction xs rule: shell_cmds_of.induct) simp_all

lemma shell_cmds_of_take_map:
  "shell_cmds_of (take m (map (\<lambda>c. Shell_cmd ch c t) cmds @ [Halt])) = take m cmds"
proof (induction cmds arbitrary: m)
  case Nil then show ?case by (cases m) simp_all
next
  case (Cons c cmds) then show ?case by (cases m) simp_all
qed

lemma shell_cmds_of_none: "\<forall>c\<in>set xs. \<not> is_shell_cmd c \<Longrightarrow> shell_cmds_of xs = []"
  by (induction xs rule: shell_cmds_of.induct) simp_all

lemma script_calls_split:
  "\<exists>u cfg ch. script_calls env a r =
     [URL_new u, Anita_new cfg, Boot, Login ch] @
     map (\<lambda>c. Shell_cmd ch c 3600) (projr (commands a r))"
  by (simp add: script_calls_def Let_def)

lemma shell_cmds_of_script:
  "shell_cmds_of (take n (script_calls env a r @ [Halt])) = take (n - 4) (projr (commands a r))"
proof -
  from script_calls_split obtain u cfg ch where sc: "script_calls env a r =
     [URL_new u, Anita_new cfg, Boot, Login ch] @
     map (\<lambda>c. Shell_cmd ch c 3600) (projr (commands a r))"
    by blast
  let ?pre = "[URL_new u, Anita_new cfg, Boot, Login ch]"
  let ?rest = "map (\<lambda>c. Shell_cmd ch c 3600) (projr (commands a r)) @ [Halt]"
  have "\<forall>c\<in>set (take n ?pre). \<not> is_shell_cmd c"
    by (auto dest!: in_set_takeD)
  then have p: "shell_cmds_of (take n ?pre) = []"
    by (rule shell_cmds_of_none)
  have "take n (script_calls env a r @ [Halt]) = take n ?pre @ take (n - length ?pre) ?rest"
    by (simp only: sc append_assoc take_append)
  also have "length ?pre = 4" by simp
  finally show ?thesis
    by (simp only: shell_cmds_of_append p shell_cmds_of_take_map append_Nil)
qed

text \<open>
  C2. The shell commands issued to the guest, in the order of the calls, are always an
  initial part of the command list as the source writes it: the \<open>rc.local\<close> append, the
  \<open>ifconfig.vioif0\<close> file, \<open>dhcpcd\<close>, the five \<open>pkg_add\<close> commands, the \<open>fstab\<close> edit,
  the two appends to \<open>rc.conf\<close> and \<open>sshd_config\<close>, the \<open>sshd\<close> restart and
  \<open>sync; shutdown -hp now\<close>. So none is skipped over, reordered or repeated. When the
  script completes, the commands issued are the whole list; and it completes whenever
  both arguments are given and no call before the halt raises.
\<close>

theorem commands_issued_in_listed_order:
  fixes env argv
  defines "arch \<equiv> argv ! 1" and "release \<equiv> argv ! 2"
  defines "issued \<equiv> shell_cmds_of (calls_of (snd (run_mkvm env argv)))"
  defines "listed \<equiv>
     [rc_local_cmd, ifconfig_cmd, ''dhcpcd'',
      pkg_add_cmd arch release ''bash curl'',
      pkg_add_cmd arch release ''git-base'',
      pkg_add_cmd arch release ''mozilla-rootcerts mozilla-rootcerts-openssl go14'',
      pkg_add_cmd arch release ''emacs25-nox11 vim screen'',
      pkg_add_cmd arch release ''clang cmake'',
      fstab_cmd,
      ''echo sshd=yes >> /etc/rc.conf'',
      ''echo PermitRootLogin without-password >> /etc/ssh/sshd_config'',
      ''/etc/rc.d/sshd restart'',
      ''sync; shutdown -hp now'']"
  shows "(\<exists>n. issued = take n listed) \<and>
         (fst (run_mkvm env argv) = Inr () \<longrightarrow> issued = listed) \<and>
         (3 \<le> length argv \<and> (\<forall>tr c. c \<noteq> Halt \<longrightarrow> raises env tr c = None)
            \<longrightarrow> fst (run_mkvm env argv) = Inr ())"
proof -
  obtain r tr where run: "run_mkvm env argv = (r, tr)" by (cases "run_mkvm env argv")
  from run_mkvm_calls[OF run] obtain n where
    n: "calls_of tr = take n (script_calls env (argv ! 1) (argv ! 2) @ [Halt])" "r = Inr () \<longleftrightarrow> n = 18"
    by blast
  have l: "projr (commands arch release) = listed"
    by (simp add: commands_eq listed_def)
  have "issued = shell_cmds_of (calls_of tr)"
    using run by (simp add: issued_def)
  also have "\<dots> = shell_cmds_of (take n (script_calls env (argv ! 1) (argv ! 2) @ [Halt]))"
    by (simp only: n(1))
  also have "\<dots> = take (n - 4) (projr (commands (argv ! 1) (argv ! 2)))"
    by (rule shell_cmds_of_script)
  also have "\<dots> = take (n - 4) listed"
    using l by (simp only: arch_def release_def)
  finally have i: "issued = take (n - 4) listed" .
  have "length listed = 13" by (simp add: listed_def)
  with i n(2) run have "(\<exists>n. issued = take n listed) \<and>
         (fst (run_mkvm env argv) = Inr () \<longrightarrow> issued = listed)" by auto
  with run_completes[of argv env] show ?thesis by blast
qed

theorem commands_issued_in_listed_order_witness:
  "3 \<le> length example_argv \<and>
   fst (run_mkvm quiet_env example_argv) = Inr () \<and>
   shell_cmds_of (calls_of (snd (run_mkvm quiet_env example_argv))) =
     [rc_local_cmd, ifconfig_cmd, ''dhcpcd'',
      ''env PKG_PATH=http://ftp.netbsd.org/pub/pkgsrc/packages/NetBSD/amd64/9.0/All/ pkg_add bash curl'',
      ''env PKG_PATH=http://ftp.netbsd.org/pub/pkgsrc/packages/NetBSD/amd64/9.0/All/ pkg_add git-base'',
      ''env PKG_PATH=http://ftp.netbsd.org/pub/pkgsrc/packages/NetBSD/amd64/9.0/All/ pkg_add mozilla-rootcerts mozilla-rootcerts-openssl go14'',
      ''env PKG_PATH=http://ftp.netbsd.org/pub/pkgsrc/packages/NetBSD/amd64/9.0/All/ pkg_add emacs25-nox11 vim screen'',
      ''env PKG_PATH=http://ftp.netbsd.org/pub/pkgsrc/packages/NetBSD/amd64/9.0/All/ pkg_add clang cmake'',
      fstab_cmd,
      ''echo sshd=yes >> /etc/rc.conf'',
      ''echo PermitRootLogin without-password >> /etc/ssh/sshd_config'',
      ''/etc/rc.d/sshd restart'',
      ''sync; shutdown -hp now'']"
proof -
  have h: "3 \<le> length example_argv \<and> (\<forall>tr c. c \<noteq> Halt \<longrightarrow> raises quiet_env tr c = None)"
    by (simp add: example_argv_def quiet_env_def)
  have a: "example_argv ! Suc 0 = ''amd64''" "example_argv ! 2 = ''9.0''"
    by (simp_all add: example_argv_def)
  from h commands_issued_in_listed_order[of quiet_env example_argv]
  show ?thesis by (simp add: a pkg_add_cmd_def)
qed

subsection \<open>The VM object\<close>

lemma filter_anita_script:
  assumes "2 \<le> n"
  shows "filter is_anita_new (take n (script_calls env a r @ [Halt])) =
     [Anita_new \<lparr>dist = ''https://cdn.netbsd.org/pub/NetBSD/NetBSD-9.0/'' @ a @ ''/'',
                 workdir = ''work-NetBSD-'' @ a, disk_size = ''16G'',
                 memory_size = ''2G'', persist = True\<rparr>]"
proof -
  obtain m where n: "n = Suc (Suc m)"
    using assms by (metis Suc_le_D numeral_2_eq_2 Suc_le_mono)
  define U where "U = ''https://cdn.netbsd.org/pub/NetBSD/NetBSD-9.0/'' @ a @ ''/''"
  define C where "C = \<lparr>dist = U, workdir = ''work-NetBSD-'' @ a, disk_size = ''16G'',
                 memory_size = ''2G'', persist = True\<rparr>"
  define ch where "ch = boot_child env [(URL_new U, None), (Anita_new C, None)]"
  define rest where "rest = Boot # Login ch #
     map (\<lambda>c. Shell_cmd ch c 3600) (projr (commands a r)) @ [Halt]"
  have sc: "script_calls env a r @ [Halt] = URL_new U # Anita_new C # rest"
    by (simp add: script_calls_def Let_def U_def C_def ch_def rest_def)
  have "\<forall>c\<in>set (take m rest). \<not> is_anita_new c"
    by (auto simp: rest_def dest!: in_set_takeD)
  then have "filter is_anita_new (take m rest) = []"
    by (simp add: filter_empty_conv)
  then have "filter is_anita_new (take n (URL_new U # Anita_new C # rest)) = [Anita_new C]"
    by (simp add: n)
  then show ?thesis
    by (simp only: sc C_def U_def)
qed

text \<open>
  C7. Whatever the arguments and the environment, the script constructs at most one VM
  object, and a VM object it constructs has the image URL
  \<open>https://cdn.netbsd.org/pub/NetBSD/NetBSD-9.0/<arch>/\<close>, the working directory
  \<open>work-NetBSD-<arch>\<close>, a 16G disk, 2G of memory, and \<open>persist\<close> enabled, where \<open>arch\<close>
  is the first argument. It constructs that object whenever both arguments are given
  (the script reads them before anything else) and \<open>anita.URL\<close> returns.
\<close>

theorem vm_constructed_with_fixed_configuration:
  fixes env argv
  defines "arch \<equiv> argv ! 1"
  defines "cfg \<equiv> \<lparr>dist = ''https://cdn.netbsd.org/pub/NetBSD/NetBSD-9.0/'' @ arch @ ''/'',
                   workdir = ''work-NetBSD-'' @ arch, disk_size = ''16G'',
                   memory_size = ''2G'', persist = True\<rparr>"
  defines "made \<equiv> filter is_anita_new (calls_of (snd (run_mkvm env argv)))"
  shows "(made = [] \<or> made = [Anita_new cfg]) \<and>
         (3 \<le> length argv \<and>
          raises env [] (URL_new (''https://cdn.netbsd.org/pub/NetBSD/NetBSD-9.0/'' @ arch @ ''/'')) = None
          \<longrightarrow> made = [Anita_new cfg])"
proof -
  obtain r tr where run: "run_mkvm env argv = (r, tr)" by (cases "run_mkvm env argv")
  let ?cs = "script_calls env (argv ! 1) (argv ! 2)"
  from run_mkvm_calls[OF run] obtain n where
    n: "calls_of tr = take n (?cs @ [Halt])" by blast
  have m: "made = filter is_anita_new (take n (?cs @ [Halt]))"
    using run n by (simp add: made_def)
  have big: "2 \<le> n \<Longrightarrow> made = [Anita_new cfg]"
    unfolding m cfg_def arch_def by (rule filter_anita_script)
  have small: "n < 2 \<Longrightarrow> made = []"
  proof -
    assume "n < 2"
    then have "n = 0 \<or> n = 1" by auto
    then show "made = []"
      unfolding m by (auto simp: script_calls_def Let_def)
  qed
  have "2 \<le> n" if len: "3 \<le> length argv"
    and ok: "raises env [] (URL_new (''https://cdn.netbsd.org/pub/NetBSD/NetBSD-9.0/'' @ arch @ ''/'')) = None"
  proof (rule ccontr)
    assume "\<not> 2 \<le> n"
    then have n01: "n = 0 \<or> n = 1" by auto
    from run_mkvm_shape[OF run] len have "tr \<noteq> []" by auto
    with n n01 have n1: "n = 1" by (auto simp: calls_of_def)
    with n have c: "calls_of tr = [URL_new (''https://cdn.netbsd.org/pub/NetBSD/NetBSD-9.0/'' @ arch @ ''/'')]"
      by (simp add: script_calls_def Let_def arch_def)
    then obtain out where tr: "tr = [(URL_new (''https://cdn.netbsd.org/pub/NetBSD/NetBSD-9.0/'' @ arch @ ''/''), out)]"
      by (cases tr) (auto simp: calls_of_def)
    from run_mkvm_faithful[OF run] tr ok have "out = None"
      by (simp add: faithful_def)
    with tr run_mkvm_shape[OF run] len show False
      by (auto simp: script_calls_length)
  qed
  with big small show ?thesis by (cases "2 \<le> n") auto
qed

theorem vm_constructed_with_fixed_configuration_witness:
  "3 \<le> length example_argv \<and>
   raises quiet_env [] (URL_new ''https://cdn.netbsd.org/pub/NetBSD/NetBSD-9.0/amd64/'') = None \<and>
   filter is_anita_new (calls_of (snd (run_mkvm quiet_env example_argv))) =
     [Anita_new \<lparr>dist = ''https://cdn.netbsd.org/pub/NetBSD/NetBSD-9.0/amd64/'',
                 workdir = ''work-NetBSD-amd64'', disk_size = ''16G'',
                 memory_size = ''2G'', persist = True\<rparr>]"
proof -
  have a: "example_argv ! Suc 0 = ''amd64''" by (simp add: example_argv_def)
  have h: "3 \<le> length example_argv \<and>
    raises quiet_env [] (URL_new (''https://cdn.netbsd.org/pub/NetBSD/NetBSD-9.0/'' @ example_argv ! 1 @ ''/'')) = None"
    by (simp add: example_argv_def quiet_env_def)
  from h vm_constructed_with_fixed_configuration[of quiet_env example_argv]
  show ?thesis by (simp add: a)
qed

subsection \<open>Boot and halt\<close>

lemma count_list_take_le: "count_list (take n xs) x \<le> count_list xs x"
proof (induction xs arbitrary: n)
  case Nil then show ?case by simp
next
  case (Cons y ys)
  show ?case
  proof (cases n)
    case 0 then show ?thesis by simp
  next
    case (Suc m)
    with Cons.IH[of m] show ?thesis by simp
  qed
qed

lemma count_list_map_shell:
  "c \<noteq> Shell_cmd ch (hd (s # cmds)) t \<Longrightarrow> \<not> is_shell_cmd c \<Longrightarrow>
   count_list (map (\<lambda>s. Shell_cmd ch s t) cmds) c = 0"
  by (induction cmds) (auto split: if_splits)

lemma script_counts:
  "count_list (script_calls env a r @ [Halt]) Boot = 1"
  "count_list (script_calls env a r @ [Halt]) Halt = 1"
  by (simp_all add: script_calls_def Let_def count_list_map_shell[where s="[]"])

lemma script_nth_shell:
  assumes "i < 18" "is_shell_cmd ((script_calls env a r @ [Halt]) ! i)"
  shows "4 \<le> i \<and> i < 17"
proof -
  from script_calls_split obtain u cfg ch where sc: "script_calls env a r =
     [URL_new u, Anita_new cfg, Boot, Login ch] @
     map (\<lambda>c. Shell_cmd ch c 3600) (projr (commands a r))"
    by blast
  have l: "length (script_calls env a r) = 17" by (rule script_calls_length)
  have "\<not> i < 4"
  proof
    assume "i < 4"
    then have "i = 0 \<or> i = 1 \<or> i = 2 \<or> i = 3" by auto
    with assms(2) show False by (auto simp: sc)
  qed
  moreover have "i \<noteq> 17"
  proof
    assume "i = 17"
    with assms(2) l show False by (simp add: nth_append)
  qed
  ultimately show ?thesis using assms(1) by simp
qed

lemma script_nth_boot: "(script_calls env a r @ [Halt]) ! 2 = Boot"
  by (simp add: script_calls_def Let_def)

lemma script_nth_halt:
  assumes "i < 18" "(script_calls env a r @ [Halt]) ! i = Halt"
  shows "i = 17"
proof (rule ccontr)
  assume "i \<noteq> 17"
  with assms(1) have i: "i < length (script_calls env a r)" by (simp add: script_calls_length)
  then have "script_calls env a r ! i \<in> set (script_calls env a r)" by simp
  moreover from i assms(2) have "script_calls env a r ! i = Halt" by (simp add: nth_append)
  ultimately show False using halt_notin_script_calls[of env a r] by simp
qed

text \<open>
  C8, as the claim states it, fails: when a shell command raises, the script ends there
  and \<open>a.halt()\<close> is never called. With the \<open>dhcpcd\<close> command raising, the run has one
  boot call and no halt call at all.
\<close>

theorem halt_not_called_when_command_fails:
  "boot_count (snd (run_mkvm dhcpcd_fails_env example_argv)) = 1 \<and>
   halt_count (snd (run_mkvm dhcpcd_fails_env example_argv)) = 0"
  by (simp add: run_eval dhcpcd_fails_env_def rc_local_cmd_def ifconfig_cmd_def
        halt_count_def boot_count_def calls_of_def)

text \<open>
  C8, amended. In every run the machine is booted at most once and halted at most once,
  a boot call precedes every shell command, and a halt call follows every shell command.
  In every run that completes (none of the calls before the halt raised) it is booted
  exactly once and halted exactly once.
\<close>

theorem boot_and_halt_at_most_once_in_order:
  assumes run: "run_mkvm env argv = (r, tr)"
  shows "boot_count tr \<le> 1 \<and> halt_count tr \<le> 1 \<and>
         (r = Inr () \<longrightarrow> boot_count tr = 1 \<and> halt_count tr = 1) \<and>
         (\<forall>i<length tr. is_shell_cmd (fst (tr ! i)) \<longrightarrow>
            (\<exists>j<i. fst (tr ! j) = Boot) \<and>
            (\<forall>j<length tr. fst (tr ! j) = Halt \<longrightarrow> i < j))"
proof -
  let ?F = "script_calls env (argv ! 1) (argv ! 2) @ [Halt]"
  from run_mkvm_calls[OF run] obtain n where
    n: "n \<le> 18" "calls_of tr = take n ?F" "r = Inr () \<longleftrightarrow> n = 18"
    by blast
  have lF: "length ?F = 18" by (simp add: script_calls_length)
  have len: "length tr = n" using n(1,2) lF
    by (metis calls_of_def length_map length_take min.absorb2)
  have nth: "fst (tr ! i) = ?F ! i" if "i < n" for i
  proof -
    from that len have "fst (tr ! i) = calls_of tr ! i" by (simp add: calls_of_def)
    also have "\<dots> = take n ?F ! i" by (simp only: n(2))
    also from that have "\<dots> = ?F ! i" by (rule nth_take)
    finally show ?thesis .
  qed
  have b: "boot_count tr \<le> 1"
    unfolding boot_count_def n(2) using count_list_take_le[of n ?F Boot]
    by (simp only: script_counts)
  have h: "halt_count tr \<le> 1"
    unfolding halt_count_def n(2) using count_list_take_le[of n ?F Halt]
    by (simp only: script_counts)
  have full: "boot_count tr = 1 \<and> halt_count tr = 1" if "r = Inr ()"
  proof -
    from that n(3) have "n = 18" by simp
    with lF have "take n ?F = ?F" by simp
    then show ?thesis
      unfolding boot_count_def halt_count_def n(2) by (simp only: script_counts)
  qed
  have ord: "(\<exists>j<i. fst (tr ! j) = Boot) \<and> (\<forall>j<length tr. fst (tr ! j) = Halt \<longrightarrow> i < j)"
    if i: "i < length tr" and s: "is_shell_cmd (fst (tr ! i))" for i
  proof -
    from i len have "i < n" by simp
    with s nth n(1) have "is_shell_cmd (?F ! i)" "i < 18" by simp_all
    from script_nth_shell[OF this(2,1)] have i4: "4 \<le> i" "i < 17" by simp_all
    from i4 \<open>i < n\<close> have "2 < n" "2 < i" by simp_all
    with nth[of 2] script_nth_boot have "fst (tr ! 2) = Boot" by simp
    with \<open>2 < i\<close> have 1: "\<exists>j<i. fst (tr ! j) = Boot" by blast
    have 2: "i < j" if j: "j < length tr" and hj: "fst (tr ! j) = Halt" for j
    proof -
      from j len n(1) have "j < n" "j < 18" by simp_all
      with hj nth have "?F ! j = Halt" by simp
      from script_nth_halt[OF \<open>j < 18\<close> this] i4 show ?thesis by simp
    qed
    from 1 2 show ?thesis by blast
  qed
  from b h full ord show ?thesis by blast
qed

theorem boot_and_halt_at_most_once_in_order_witness:
  "fst (run_mkvm quiet_env example_argv) = Inr () \<and>
   boot_count (snd (run_mkvm quiet_env example_argv)) = 1 \<and>
   halt_count (snd (run_mkvm quiet_env example_argv)) = 1 \<and>
   4 < length (snd (run_mkvm quiet_env example_argv)) \<and>
   is_shell_cmd (fst (snd (run_mkvm quiet_env example_argv) ! 4)) \<and>
   17 < length (snd (run_mkvm quiet_env example_argv)) \<and>
   fst (snd (run_mkvm quiet_env example_argv) ! 17) = Halt \<and>
   fst (snd (run_mkvm quiet_env example_argv) ! 2) = Boot"
proof -
  let ?q = "run_mkvm quiet_env example_argv"
  have q0: "?q = (fst ?q, snd ?q)" by simp
  have q1: "fst ?q = Inr ()" "4 < length (snd ?q)" "is_shell_cmd (fst (snd ?q ! 4))"
    "17 < length (snd ?q)" "fst (snd ?q ! 17) = Halt" "fst (snd ?q ! 2) = Boot"
    by (simp_all add: run_eval quiet_env_def)
  from boot_and_halt_at_most_once_in_order[OF q0] q1
  show ?thesis by simp
qed

subsection \<open>Command-line arguments\<close>

text \<open>
  C9, as the claim states it, fails: the script reads \<open>sys.argv[1]\<close> and \<open>sys.argv[2]\<close>,
  and two argument vectors that differ there give different runs.
\<close>

theorem run_depends_on_arguments:
  "run_mkvm quiet_env [''mkvm.py'', ''amd64'', ''9.0''] \<noteq>
   run_mkvm quiet_env [''mkvm.py'', ''i386'', ''9.0'']"
  by (simp add: mkvm_long script_calls_def commands_eq quiet_env_def invoke_def try_halt_def Let_def)


lemma argv_index_1:
  "argv_index argv 1 = (case take 2 (tl argv) of [] \<Rightarrow> Inl IndexError | a # r \<Rightarrow> Inr a)"
  by (cases argv; cases "tl argv") (auto simp: argv_index_def)

lemma argv_index_2:
  "argv_index argv 2 = (case take 2 (tl argv) of [a, b] \<Rightarrow> Inr b | r \<Rightarrow> Inl IndexError)"
  by (cases argv; cases "tl argv"; cases "tl (tl argv)") (auto simp: argv_index_def)

text \<open>
  C9, amended. The run depends on the command line only through its first two
  positional arguments, \<open>arch\<close> and \<open>release\<close>: two argument vectors that agree on them
  (or that both lack them) give the same outcome and the same calls, whatever the
  program name and the further arguments.
\<close>

theorem run_depends_only_on_arch_and_release:
  assumes same: "take 2 (tl argv) = take 2 (tl argv')"
  shows "run_mkvm env argv = run_mkvm env argv'"
  unfolding run_mkvm_def mkvm_def argv_index_1 argv_index_2 same by (rule refl)


theorem run_depends_only_on_arch_and_release_witness:
  "take 2 (tl [''mkvm.py'', ''amd64'', ''9.0'']) = take 2 (tl [''./mkvm.py'', ''amd64'', ''9.0'', ''-v'']) \<and>
   run_mkvm quiet_env [''mkvm.py'', ''amd64'', ''9.0''] = run_mkvm quiet_env [''./mkvm.py'', ''amd64'', ''9.0'', ''-v'']"
proof -
  have h: "take 2 (tl [''mkvm.py'', ''amd64'', ''9.0'']) = take 2 (tl [''./mkvm.py'', ''amd64'', ''9.0'', ''-v''])"
    by simp
  from h run_depends_only_on_arch_and_release[OF h, of quiet_env] show ?thesis by blast
qed

section \<open>Properties of Component B\<close>

subsection \<open>The shape of a run of \<open>RunSteps\<close>\<close>

lemma checkout_ref_eq:
  "checkout_ref c p =
     Inr (''refs/changes/'' @ str_of_int (c mod 100) @ ''/'' @ str_of_int c @ ''/'' @ str_of_int p)"
  by (simp add: checkout_ref_def)

lemma RunSteps_eq:
  assumes "gerrit_change api = Some g"
  shows "RunSteps api [] =
    (let repo_path = join (start_dir api) [gerrit_change_repo_project api];
         c1 = Get_change_description (''https://'' @ host g) (change g) (patchset g);
         r1 = responds api [] c1
     in case r1 of Inl e \<Rightarrow> (Inl e, [(c1, r1)]) | Inr commit_message \<Rightarrow>
        let c2 = Git_checkout (''https://'' @ host g @ ''/'' @ project g)
                   (''refs/changes/'' @ str_of_int (change g mod 100) @ ''/'' @
                    str_of_int (change g) @ ''/'' @ str_of_int (patchset g)) repo_path False;
            r2 = responds api [(c1, r1)] c2
        in case r2 of Inl e \<Rightarrow> (Inl e, [(c1, r1), (c2, r2)]) | Inr u \<Rightarrow>
        let c3 = Get_files_affected_by_patch (gerrit_change_repo_project api) ''affected_files'';
            r3 = responds api [(c1, r1), (c2, r2)] c3
        in case r3 of Inl e \<Rightarrow> (Inl e, [(c1, r1), (c2, r2), (c3, r3)]) | Inr affected_files \<Rightarrow>
        let c4 = Run_legacy [HTTPS_CHECK, SPELLCHECKER, INCLUSIVE_LANGUAGE_CHECK, COPYRIGHT]
                   repo_path affected_files commit_message;
            r4 = responds api [(c1, r1), (c2, r2), (c3, r3)] c4
        in case r4 of Inl e \<Rightarrow> (Inl e, [(c1, r1), (c2, r2), (c3, r3), (c4, r4)])
           | Inr d \<Rightarrow> (Inr (), [(c1, r1), (c2, r2), (c3, r3), (c4, r4)]))"
  using assms
  by (simp add: RunSteps_def seq_def pure_def step_call_def gerrit_change_of_def checkout_ref_eq
        Let_def split: sum.splits)

lemma RunSteps_none:
  "gerrit_change api = None \<Longrightarrow> RunSteps api [] = (Inl AttributeError, [])"
  by (simp add: RunSteps_def seq_def pure_def gerrit_change_of_def Let_def)

subsection \<open>Decimal rendering\<close>

lemma of_char_digit_char: "d < 10 \<Longrightarrow> of_char (digit_char d) = 48 + d"
  by (simp add: digit_char_def)

lemma dec_value_snoc: "dec_value (s @ [ch]) = 10 * dec_value s + (of_char ch - 48)"
  by (simp add: dec_value_def)

lemma dec_value_dec_nat: "dec_value (dec_nat n) = n"
proof (induction n rule: dec_nat.induct)
  case (1 n)
  show ?case
  proof (cases "n < 10")
    case True
    then show ?thesis
      by (simp add: dec_nat.simps[of n] dec_value_def of_char_digit_char)
  next
    case False
    with 1 have "dec_value (dec_nat (n div 10)) = n div 10" by simp
    with False show ?thesis
      by (simp add: dec_nat.simps[of n] dec_value_snoc of_char_digit_char)
  qed
qed

lemma dec_nat_single: "n < 10 \<Longrightarrow> dec_nat n = [digit_char n]"
  by (simp add: dec_nat.simps[of n])

lemma str_of_int_single: "0 \<le> i \<Longrightarrow> i < 10 \<Longrightarrow> str_of_int i = [digit_char (nat i)]"
  by (simp add: str_of_int_def dec_nat_single)

subsection \<open>The checkout ref\<close>

text \<open>
  C6. Whatever the change number \<open>C\<close> and the patch set \<open>P\<close> of the build's change, a
  checkout that \<open>RunSteps\<close> makes has the ref \<open>refs/changes/<C mod 100>/<C>/<P>\<close>, each
  component being the decimal rendering that \<open>%d\<close> gives, with no padding: the first
  component denotes \<open>C mod 100\<close> and is a single digit when \<open>C mod 100\<close> is less than 10.
\<close>

theorem checkout_ref_unpadded_decimal:
  assumes g: "gerrit_change api = Some g"
    and co: "(Git_checkout url ref dir_path submodules, out) \<in> set (snd (RunSteps api []))"
  shows "ref = ''refs/changes/'' @ str_of_int (change g mod 100) @ ''/'' @
               str_of_int (change g) @ ''/'' @ str_of_int (patchset g) \<and>
         dec_value (str_of_int (change g mod 100)) = nat (change g mod 100) \<and>
         (change g mod 100 < 10 \<longrightarrow>
            str_of_int (change g mod 100) = [digit_char (nat (change g mod 100))])"
proof -
  from co have "ref = ''refs/changes/'' @ str_of_int (change g mod 100) @ ''/'' @
               str_of_int (change g) @ ''/'' @ str_of_int (patchset g)"
    unfolding RunSteps_eq[OF g] by (auto simp: Let_def split: sum.splits)
  moreover have m: "\<not> change g mod 100 < 0" by simp
  then have "dec_value (str_of_int (change g mod 100)) = nat (change g mod 100)"
    by (simp only: str_of_int_def if_False dec_value_dec_nat)
  moreover have "change g mod 100 < 10 \<longrightarrow>
      str_of_int (change g mod 100) = [digit_char (nat (change g mod 100))]"
    by (simp add: str_of_int_single)
  ultimately show ?thesis by blast
qed

theorem checkout_ref_unpadded_decimal_witness:
  "gerrit_change low_change_api =
     Some \<lparr>host = ''go-review.googlesource.com'', project = ''go'', change = 86705, patchset = 1\<rparr> \<and>
   fst (snd (RunSteps low_change_api []) ! 1) =
     Git_checkout ''https://go-review.googlesource.com/go'' ''refs/changes/5/86705/1''
       (Path ''start_dir'' [''go'']) False \<and>
   str_of_int (86705 mod 100) = ''5''"
proof -
  let ?g = "\<lparr>host = ''go-review.googlesource.com'', project = ''go'', change = 86705, patchset = 1\<rparr>"
  have g: "gerrit_change low_change_api = Some ?g" by (simp add: low_change_api_def)
  have run: "snd (RunSteps low_change_api []) =
     [(Get_change_description ''https://go-review.googlesource.com'' 86705 1, Inr ''''),
      (Git_checkout ''https://go-review.googlesource.com/go''
         (''refs/changes/'' @ str_of_int (86705 mod 100) @ ''/'' @ str_of_int 86705 @ ''/'' @ str_of_int 1)
         (Path ''start_dir'' [''go'']) False, Inr ''''),
      (Get_files_affected_by_patch ''go'' ''affected_files'', Inr ''''),
      (Run_legacy [HTTPS_CHECK, SPELLCHECKER, INCLUSIVE_LANGUAGE_CHECK, COPYRIGHT]
         (Path ''start_dir'' [''go'']) '''' '''', Inr '''')]"
    unfolding RunSteps_eq[OF g] by (simp add: low_change_api_def Let_def)
  have co: "(Git_checkout ''https://go-review.googlesource.com/go''
         (''refs/changes/'' @ str_of_int (86705 mod 100) @ ''/'' @ str_of_int 86705 @ ''/'' @ str_of_int 1)
         (Path ''start_dir'' [''go'']) False, Inr '''') \<in> set (snd (RunSteps low_change_api []))"
    unfolding run by simp
  have d: "str_of_int 5 = ''5''" "str_of_int 86705 = ''86705''" "str_of_int 1 = ''1''"
    by (simp_all add: str_of_int_def dec_nat.simps digit_char_def char_of_def bit_0)
  from checkout_ref_unpadded_decimal[OF g co] g run d show ?thesis by simp
qed

subsection \<open>The analyzer run\<close>



subsection \<open>Error handling\<close>

text \<open>
  C10. Take any run of \<open>RunSteps\<close> and any module call of it that raised an exception
  \<open>e\<close>. The trace logs that exception for the call, \<open>RunSteps\<close> ends with \<open>e\<close> itself
  (it is not caught or converted), and the call is the last one of the run (it is not
  retried and no later step runs).
\<close>

theorem framework_exception_propagates_unchanged:
  assumes run: "RunSteps api [] = (r, tr)"
    and i: "i < length tr"
    and e: "responds api (take i tr) (fst (tr ! i)) = Inl e"
  shows "snd (tr ! i) = Inl e \<and> r = Inl e \<and> Suc i = length tr"
proof (cases "gerrit_change api")
  case None
  with run i RunSteps_none[of api] show ?thesis by simp
next
  case (Some g)
  have "i = 0 \<or> i = 1 \<or> i = 2 \<or> i = 3 \<or> 4 \<le> i" by auto
  with run i e show ?thesis
    unfolding RunSteps_eq[OF Some]
    by (auto simp: Let_def split: sum.splits)
qed

theorem framework_exception_propagates_unchanged_witness:
  "1 < length (snd (RunSteps checkout_fails_api [])) \<and>
   responds checkout_fails_api (take 1 (snd (RunSteps checkout_fails_api [])))
     (fst (snd (RunSteps checkout_fails_api []) ! 1)) = Inl (External ''git checkout'') \<and>
   snd (snd (RunSteps checkout_fails_api []) ! 1) = Inl (External ''git checkout'') \<and>
   fst (RunSteps checkout_fails_api []) = Inl (External ''git checkout'') \<and>
   length (snd (RunSteps checkout_fails_api [])) = 2"
proof -
  let ?g = "\<lparr>host = ''go-review.googlesource.com'', project = ''go'', change = 86753, patchset = 1\<rparr>"
  let ?run = "RunSteps checkout_fails_api []"
  have g: "gerrit_change checkout_fails_api = Some ?g" by (simp add: checkout_fails_api_def)
  have r0: "?run = (fst ?run, snd ?run)" by simp
  have i: "1 < length (snd ?run)"
    unfolding RunSteps_eq[OF g] by (simp add: checkout_fails_api_def Let_def)
  have e: "responds checkout_fails_api (take 1 (snd ?run)) (fst (snd ?run ! 1)) =
      Inl (External ''git checkout'')"
    unfolding RunSteps_eq[OF g] by (simp add: checkout_fails_api_def Let_def)
  from framework_exception_propagates_unchanged[OF r0 i e] i e
  show ?thesis by simp
qed

end
